theory Spec2Isabelle
  imports Complex_Main "HOL-Library.Word"
begin

section \<open>Coverage plan: elevation bands, azimuth steps and the capture queue\<close>

text \<open>
  The component \<open>PanoramaViewer\<close> (the only variant of the file that is not commented
  out, lines 1 to 1172 of \<open>src/components/PanoramaViewer.jsx\<close>) keeps its plan as two
  constants: the list \<open>elevationLevels\<close> and the object \<open>azimuthIncrements\<close>, read as
  \<open>azimuthIncrements[elev] || 60\<close>. Elevations are whole degrees, possibly negative
  (\<open>int\<close>); the steps of the table are positive whole degrees (\<open>nat\<close>), and a missing or
  zero entry is falsy and replaced by 60.
\<close>

record CaptureTarget =
  azimuth :: nat
  elevation :: int

definition elevationLevels :: "int list" where
  "elevationLevels = [0, 30, 60, 90, -30, -60, -90]"

definition azimuthIncrements :: "int \<rightharpoonup> nat" where
  "azimuthIncrements =
     map_of [(0, 40), (30, 45), (60, 60), (90, 360), (-30, 45), (-60, 60), (-90, 360)]"

definition increment_of :: "(int \<rightharpoonup> nat) \<Rightarrow> int \<Rightarrow> nat" where
  \<comment> \<open>\<open>azimuthIncrements[elev] || 60\<close>: undefined and 0 are falsy.\<close>
  "increment_of incs elev =
     (case incs elev of None \<Rightarrow> 60 | Some v \<Rightarrow> if v = 0 then 60 else v)"

definition ceil_div :: "nat \<Rightarrow> nat \<Rightarrow> nat" where
  \<comment> \<open>\<open>Math.ceil(a / b)\<close> for whole \<open>a\<close> and positive whole \<open>b\<close>.\<close>
  "ceil_div a b = (a + b - 1) div b"

definition captures_of :: "(int \<rightharpoonup> nat) \<Rightarrow> int \<Rightarrow> nat" where
  \<comment> \<open>\<open>Math.ceil(360 / increment)\<close>\<close>
  "captures_of incs elev = ceil_div 360 (increment_of incs elev)"

definition maxCaptures :: "int list \<Rightarrow> (int \<rightharpoonup> nat) \<Rightarrow> nat" where
  \<comment> \<open>\<open>elevationLevels.reduce((total, elev) => total + Math.ceil(360 / increment), 0)\<close>\<close>
  "maxCaptures levels incs = foldl (\<lambda>total elev. total + captures_of incs elev) 0 levels"

text \<open>
  The inner loop \<open>for (let i = 0; i < captures; i++) queue.push({azimuth: i * increment,
  elevation: elev})\<close>, with the queue built so far as accumulator.
\<close>

function push_band :: "nat \<Rightarrow> nat \<Rightarrow> nat \<Rightarrow> int \<Rightarrow> CaptureTarget list \<Rightarrow> CaptureTarget list" where
  "push_band i captures increment elev queue =
     (if i < captures
      then push_band (Suc i) captures increment elev
             (queue @ [\<lparr>azimuth = i * increment, elevation = elev\<rparr>])
      else queue)"
  by pat_completeness auto
termination
  by (relation "measure (\<lambda>(i, captures, increment, elev, queue). captures - i)") auto

declare push_band.simps [simp del]

text \<open>\<open>while (queue.length > maxCaptures) queue.pop()\<close>\<close>

function pop_excess :: "nat \<Rightarrow> CaptureTarget list \<Rightarrow> CaptureTarget list" where
  "pop_excess m queue = (if length queue > m then pop_excess m (butlast queue) else queue)"
  by pat_completeness auto
termination
  by (relation "measure (\<lambda>(m, queue). length queue - m)") auto

declare pop_excess.simps [simp del]

definition fill_queue :: "int list \<Rightarrow> (int \<rightharpoonup> nat) \<Rightarrow> CaptureTarget list" where
  \<comment> \<open>the \<open>elevationLevels.forEach\<close> that pushes every band onto the empty queue\<close>
  "fill_queue levels incs =
     foldl (\<lambda>queue elev.
              push_band 0 (captures_of incs elev) (increment_of incs elev) elev queue)
       [] levels"

definition initializeQueue :: "int list \<Rightarrow> (int \<rightharpoonup> nat) \<Rightarrow> CaptureTarget list" where
  \<comment> \<open>lines 82 to 95: fill, then drop the tail beyond \<open>maxCaptures\<close>\<close>
  "initializeQueue levels incs = pop_excess (maxCaptures levels incs) (fill_queue levels incs)"

definition newQueue :: "int list \<Rightarrow> (int \<rightharpoonup> nat) \<Rightarrow> CaptureTarget list" where
  \<comment> \<open>lines 574 to 586 of \<open>resetPanorama\<close>: the same loops, written out a second time\<close>
  "newQueue levels incs =
     pop_excess (maxCaptures levels incs)
       (foldl (\<lambda>newQueue elev.
                 push_band 0 (captures_of incs elev) (increment_of incs elev) elev newQueue)
          [] levels)"

text \<open>
  The plan in the words of the specification: for each band in order, \<open>ceil(360 / step)\<close>
  targets at azimuths \<open>0, step, 2 * step, ...\<close>, not wrapped, concatenated.
\<close>

definition band_targets :: "nat \<Rightarrow> int \<Rightarrow> CaptureTarget list" where
  "band_targets step elev =
     map (\<lambda>i. \<lparr>azimuth = i * step, elevation = elev\<rparr>) [0..<nat \<lceil>360 / real step\<rceil>]"

definition coverage_plan :: "int list \<Rightarrow> (int \<rightharpoonup> nat) \<Rightarrow> CaptureTarget list" where
  "coverage_plan levels incs =
     concat (map (\<lambda>elev. band_targets (increment_of incs elev) elev) levels)"


section \<open>Sharpening\<close>

text \<open>
  \<open>sharpenImage\<close> (lines 726 to 773) draws the image on a canvas, reads its RGBA bytes
  with \<open>getImageData\<close> (a \<open>Uint8ClampedArray\<close> of \<open>width * height * 4\<close> bytes), and
  fills a second, zeroed \<open>ImageData\<close> of the same size. The accumulators \<open>r\<close>, \<open>g\<close>,
  \<open>b\<close> are JavaScript numbers holding whole values between \<open>-1020\<close> and \<open>1275\<close>,
  modelled as \<open>int\<close>. PNG encoding and decoding of the canvas is taken as lossless.
\<close>

type_synonym u8 = "8 word"

record ImageData =
  width :: nat
  height :: nat
  data :: "u8 list"

definition kernel :: "int list" where
  "kernel = [0, -1, 0,
             -1, 5, -1,
             0, -1, 0]"

definition kernel_tap ::
  "u8 list \<Rightarrow> nat \<Rightarrow> nat \<Rightarrow> nat \<Rightarrow> nat \<Rightarrow> nat \<Rightarrow> int \<times> int \<times> int \<Rightarrow> nat \<Rightarrow> int \<times> int \<times> int" where
  \<comment> \<open>the body of the \<open>kx\<close> loop, lines 752 to 760\<close>
  "kernel_tap dat w h x y ky acc kx =
     (case acc of (r, g, b) \<Rightarrow>
        let px = int x + int kx - 1;
            py = int y + int ky - 1
        in if px \<ge> 0 \<and> px < int w \<and> py \<ge> 0 \<and> py < int h
           then let pos = (nat py * w + nat px) * 4;
                    weight = kernel ! (ky * 3 + kx)
                in (r + uint (dat ! pos) * weight,
                    g + uint (dat ! (pos + 1)) * weight,
                    b + uint (dat ! (pos + 2)) * weight)
           else (r, g, b))"

definition convolve_pixel :: "u8 list \<Rightarrow> nat \<Rightarrow> nat \<Rightarrow> nat \<Rightarrow> nat \<Rightarrow> int \<times> int \<times> int" where
  \<comment> \<open>\<open>let r = 0, g = 0, b = 0; for (ky ...) for (kx ...) ...\<close>\<close>
  "convolve_pixel dat w h x y =
     foldl (\<lambda>acc ky. foldl (kernel_tap dat w h x y ky) acc [0..<3]) (0, 0, 0) [0..<3]"

definition clamp_byte :: "int \<Rightarrow> u8" where
  \<comment> \<open>\<open>Math.min(Math.max(v, 0), 255)\<close>, stored in a \<open>Uint8ClampedArray\<close>\<close>
  "clamp_byte v = word_of_int (min (max v 0) 255)"

definition write_pixel :: "u8 list \<Rightarrow> nat \<Rightarrow> nat \<Rightarrow> nat \<Rightarrow> u8 list \<Rightarrow> nat \<Rightarrow> u8 list" where
  \<comment> \<open>the body of the \<open>x\<close> loop, lines 749 to 767\<close>
  "write_pixel dat w h y outData x =
     (case convolve_pixel dat w h x y of (r, g, b) \<Rightarrow>
        let idx = (y * w + x) * 4
        in outData[idx := clamp_byte r, idx + 1 := clamp_byte g,
                   idx + 2 := clamp_byte b, idx + 3 := 255])"

definition pixel_bytes :: "u8 list \<Rightarrow> nat \<Rightarrow> nat \<Rightarrow> nat \<Rightarrow> nat \<Rightarrow> u8 list" where
  \<comment> \<open>the four bytes that lines 764 to 767 store for the pixel \<open>(x, y)\<close>\<close>
  "pixel_bytes dat w h x y =
     (case convolve_pixel dat w h x y of (r, g, b) \<Rightarrow>
        [clamp_byte r, clamp_byte g, clamp_byte b, 255])"

definition sharpen_data :: "u8 list \<Rightarrow> nat \<Rightarrow> nat \<Rightarrow> u8 list" where
  \<comment> \<open>the \<open>y\<close> and \<open>x\<close> loops over the zeroed output of \<open>createImageData\<close>\<close>
  "sharpen_data dat w h =
     foldl (\<lambda>outData y. foldl (write_pixel dat w h y) outData [0..<w])
       (replicate (w * h * 4) 0) [0..<h]"

definition sharpenImage :: "ImageData \<Rightarrow> ImageData" where
  "sharpenImage img =
     \<lparr>width = width img, height = height img,
      data = sharpen_data (data img) (width img) (height img)\<rparr>"

text \<open>
  The convolution in the words of the specification: the 3 by 3 kernel
  \<open>[[0,-1,0],[-1,5,-1],[0,-1,0]]\<close> over one channel, where a tap outside the image
  contributes zero.
\<close>

definition kernel_rows :: "int list list" where
  "kernel_rows = [[0, -1, 0], [-1, 5, -1], [0, -1, 0]]"

definition channel_at :: "u8 list \<Rightarrow> nat \<Rightarrow> nat \<Rightarrow> nat \<Rightarrow> int \<Rightarrow> int \<Rightarrow> int" where
  "channel_at dat w h c px py =
     (if 0 \<le> px \<and> px < int w \<and> 0 \<le> py \<and> py < int h
      then uint (dat ! ((nat py * w + nat px) * 4 + c)) else 0)"

definition convolution :: "u8 list \<Rightarrow> nat \<Rightarrow> nat \<Rightarrow> nat \<Rightarrow> nat \<Rightarrow> nat \<Rightarrow> int" where
  "convolution dat w h c x y =
     (\<Sum>ky\<leftarrow>[0..<3]. \<Sum>kx\<leftarrow>[0..<3].
        kernel_rows ! ky ! kx * channel_at dat w h c (int x + int kx - 1) (int y + int ky - 1))"

definition clamp_0_255 :: "int \<Rightarrow> int" where
  "clamp_0_255 v = (if v < 0 then 0 else if 255 < v then 255 else v)"

section \<open>The capture session\<close>

text \<open>
  The refs and React state of the component, as one record. An object placed by
  \<open>placeObjectOnSphere\<close> is recorded by the azimuth and elevation it was placed at
  (the trigonometry of the placement is floating point and not needed here).
  \<open>rendererRef\<close>, \<open>sceneRef\<close>, \<open>hiddenCanvasRef\<close> and \<open>videoTextureRef\<close> say whether
  the ref holds an object; no function of the component ever sets a ref back to null.
  A thumbnail is recorded by the sharpened image it is drawn from. The flash overlay
  and the vibration are left out.
\<close>

record SceneObject =
  placed :: "CaptureTarget option"
  visible :: bool

record CapturedPlane =
  texture :: ImageData
  position :: CaptureTarget
  enlarged :: bool
  pointers :: "CaptureTarget list"

record Session =
  captureQueueRef :: "CaptureTarget list"
  capturedPlanesRef :: "CapturedPlane list"
  captureCountRef :: nat
  capturingRef :: bool
  firstCaptureDoneRef :: bool
  instructions :: string
  captureCount :: nat
  isPanoramaComplete :: bool
  previewPanorama :: "ImageData option"
  queueReady :: bool
  isStable :: bool
  thumbnails :: "ImageData list"
  stabilityTimeoutRef :: "nat option"
  rendererRef :: bool
  sceneRef :: bool
  hiddenCanvasRef :: bool
  videoTextureRef :: bool
  videoPlaneRef :: "SceneObject option"
  markerRef :: "SceneObject option"

text \<open>
  What the \<open>onload\<close> callbacks of an attempt close over: the dequeued target, the local
  \<open>queue\<close>, \<open>isAuto\<close> and the frame drawn on the hidden canvas. \<open>queue\<close> is the array
  object that \<open>captureQueueRef.current\<close> held when the attempt started. Only
  \<open>performCapture\<close> mutates such an array (by \<open>shift\<close>), and it does so on the array the
  ref holds at that moment, after the guard on \<open>capturingRef\<close>; \<open>resetPanorama\<close> stores a
  new array in the ref and leaves the old one alone. So the contents the callback reads
  are the contents right after the \<open>shift\<close>, which the record keeps.
\<close>

record Pending =
  p_target :: CaptureTarget
  p_queue :: "CaptureTarget list"
  p_isAuto :: bool
  p_frame :: ImageData

datatype outcome =
    NotTriggered
  | Unstable
  | InFlight
  | Unavailable
  | QueueEmpty
  | Started Pending

datatype error = TypeError

definition msg_initial :: string where
  "msg_initial = ''Keep your device straight and press 'Capture' to take the first image at the Equator.''"

definition msg_moving :: string where
  "msg_moving = ''Device is moving. Please hold steady to capture a clear image.''"

definition msg_completed :: string where
  "msg_completed = ''All captures completed. Preview your panorama!''"

definition msg_first :: string where
  "msg_first = ''Image captured at Equator. Tilt your device upward to align with the next marker for automatic capture.''"

fun digits :: "nat \<Rightarrow> string" where
  "digits n = (if n < 10 then [char_of (48 + n)] else digits (n div 10) @ [char_of (48 + n mod 10)])"

declare digits.simps [simp del]

definition msg_captured :: "nat \<Rightarrow> string" where
  "msg_captured n = ''Image '' @ digits n @ '' captured. Continue aligning your device for the next capture.''"

definition max_captures :: nat where
  \<comment> \<open>the \<open>maxCaptures\<close> of the component, from its two constants\<close>
  "max_captures = maxCaptures elevationLevels azimuthIncrements"

definition hide :: "SceneObject option \<Rightarrow> SceneObject option" where
  \<comment> \<open>\<open>if (ref.current) ref.current.visible = false\<close>\<close>
  "hide obj = map_option (\<lambda>ob. ob\<lparr>visible := False\<rparr>) obj"

definition unhide :: "SceneObject option \<Rightarrow> SceneObject option" where
  "unhide obj = map_option (\<lambda>ob. ob\<lparr>visible := True\<rparr>) obj"

definition placeObjectOnSphere :: "CaptureTarget \<Rightarrow> SceneObject \<Rightarrow> SceneObject" where
  "placeObjectOnSphere t ob = ob\<lparr>placed := Some t\<rparr>"

definition performCapture :: "bool \<Rightarrow> bool \<Rightarrow> ImageData \<Rightarrow> Session \<Rightarrow> Session \<times> outcome" where
  \<comment> \<open>lines 347 to 403, up to the promise; \<open>steady\<close> is the \<open>isStable\<close> of the closure\<close>
  "performCapture steady isAuto frame s =
     (if \<not> steady then (s\<lparr>instructions := msg_moving\<rparr>, Unstable)
      else if capturingRef s then (s, InFlight)
      else
        let s1 = s\<lparr>capturingRef := True\<rparr>
        in if \<not> rendererRef s1 \<or> \<not> sceneRef s1 \<or> videoPlaneRef s1 = None \<or>
              markerRef s1 = None \<or> \<not> hiddenCanvasRef s1 \<or> \<not> videoTextureRef s1
           then (s1\<lparr>capturingRef := False\<rparr>, Unavailable)
           else (case captureQueueRef s1 of
                   [] \<Rightarrow>
                     (s1\<lparr>instructions := msg_completed, isPanoramaComplete := True,
                         videoPlaneRef := hide (videoPlaneRef s1),
                         markerRef := hide (markerRef s1),
                         capturingRef := False\<rparr>, QueueEmpty)
                 | t # rest \<Rightarrow>
                     (s1\<lparr>captureQueueRef := rest\<rparr>,
                      Started \<lparr>p_target = t, p_queue = rest, p_isAuto = isAuto,
                               p_frame = frame\<rparr>)))"

definition add_pointer :: "CapturedPlane list \<Rightarrow> CaptureTarget list \<Rightarrow> CapturedPlane list" where
  \<comment> \<open>lines 440 to 447: the plane before the new one gets a pointer to \<open>queue[0]\<close>\<close>
  "add_pointer planes queue =
     (if length planes > 1
      then (case queue of
              [] \<Rightarrow> planes
            | nextCapture # _ \<Rightarrow>
                planes[length planes - 2 :=
                  (planes ! (length planes - 2))
                    \<lparr>pointers := pointers (planes ! (length planes - 2)) @ [nextCapture]\<rparr>])
      else planes)"

definition capture_onload :: "Pending \<Rightarrow> Session \<Rightarrow> error + Session" where
  \<comment> \<open>lines 412 to 498, the callback that commits the tile. With targets left in
      \<open>queue\<close>, \<open>placeObjectOnSphere(videoPlaneRef.current, ...)\<close> on a null ref is a
      TypeError.\<close>
  "capture_onload p s =
     (let sharpened = sharpenImage (p_frame p);
          capturedPlane = \<lparr>texture = sharpened, position = p_target p,
                           enlarged = (\<bar>elevation (p_target p)\<bar> > 60), pointers = []\<rparr>;
          s1 = s\<lparr>capturedPlanesRef := capturedPlanesRef s @ [capturedPlane]\<rparr>;
          s2 = s1\<lparr>thumbnails := thumbnails s1 @ [sharpened]\<rparr>;
          s3 = s2\<lparr>capturedPlanesRef := add_pointer (capturedPlanesRef s2) (p_queue p)\<rparr>;
          s4 = s3\<lparr>captureCountRef := captureCountRef s3 + 1\<rparr>;
          s5 = s4\<lparr>captureCount := captureCountRef s4\<rparr>;
          s6 = (if \<not> p_isAuto p
                then s5\<lparr>instructions := msg_first, firstCaptureDoneRef := True\<rparr>
                else s5\<lparr>instructions := msg_captured (captureCountRef s5)\<rparr>)
      in case (case p_queue p of
                 [] \<Rightarrow> Inr s6
               | nextCapture # _ \<Rightarrow>
                   (case videoPlaneRef s6 of
                      None \<Rightarrow> Inl TypeError
                    | Some videoPlane \<Rightarrow>
                        Inr (s6\<lparr>videoPlaneRef := Some (placeObjectOnSphere nextCapture videoPlane),
                                markerRef := map_option (placeObjectOnSphere nextCapture) (markerRef s6)\<rparr>)))
         of Inl e \<Rightarrow> Inl e
          | Inr s7 \<Rightarrow>
              let s8 = (if captureCountRef s7 \<ge> max_captures
                        then s7\<lparr>instructions := msg_completed, isPanoramaComplete := True,
                                videoPlaneRef := hide (videoPlaneRef s7),
                                markerRef := hide (markerRef s7)\<rparr>
                        else s7)
              in Inr (s8\<lparr>capturingRef := False\<rparr>))"

definition captureImage :: "ImageData \<Rightarrow> Session \<Rightarrow> Session \<times> outcome" where
  \<comment> \<open>lines 508 to 512, the handler of the Capture button; it is created anew for every
      render, so the \<open>isStable\<close> of its \<open>performCapture\<close> is the current one\<close>
  "captureImage frame s =
     (if \<not> capturingRef s \<and> captureCountRef s < max_captures
      then performCapture (isStable s) False frame s
      else (s, NotTriggered))"

definition autoCaptureImage :: "bool \<Rightarrow> ImageData \<Rightarrow> Session \<Rightarrow> Session \<times> outcome" where
  \<comment> \<open>lines 515 to 517\<close>
  "autoCaptureImage steady frame s = performCapture steady True frame s"

definition animate :: "bool \<Rightarrow> bool \<Rightarrow> ImageData \<Rightarrow> Session \<Rightarrow> Session \<times> outcome" where
  \<comment> \<open>lines 244 to 255, one tick of the animation loop; \<open>steady\<close> is the \<open>isStable\<close> of
      the render whose effect started the loop, \<open>centered\<close> the value of
      \<open>isMarkerCentered(camera, marker)\<close>. The \<open>then\<close> callback of a promise that is
      already resolved runs before any other event; for a started capture it runs
      after \<open>capture_onload\<close>, which has cleared the flag itself.\<close>
  "animate steady centered frame s =
     (if firstCaptureDoneRef s \<and> \<not> capturingRef s \<and> captureCountRef s < max_captures \<and>
         centered \<and> steady
      then (case autoCaptureImage steady frame (s\<lparr>capturingRef := True\<rparr>) of
              (s', Started p) \<Rightarrow> (s', Started p)
            | (s', out) \<Rightarrow> (s'\<lparr>capturingRef := False\<rparr>, out))
      else (s, NotTriggered))"

definition resetPanorama :: "Session \<Rightarrow> Session" where
  \<comment> \<open>lines 534 to 606\<close>
  "resetPanorama s =
     (if \<not> sceneRef s \<or> videoPlaneRef s = None \<or> markerRef s = None then s
      else
        let s1 = s\<lparr>capturedPlanesRef := [], captureCountRef := 0, capturingRef := False,
                   firstCaptureDoneRef := False, captureCount := 0,
                   instructions := msg_initial, isPanoramaComplete := False,
                   previewPanorama := None, queueReady := True, thumbnails := [],
                   captureQueueRef := newQueue elevationLevels azimuthIncrements\<rparr>;
            s2 = (case captureQueueRef s1 of
                    [] \<Rightarrow> s1
                  | firstCapture # _ \<Rightarrow>
                      s1\<lparr>videoPlaneRef := map_option (placeObjectOnSphere firstCapture) (videoPlaneRef s1),
                         markerRef := map_option (placeObjectOnSphere firstCapture) (markerRef s1)\<rparr>)
        in s2\<lparr>videoPlaneRef := unhide (videoPlaneRef s2), markerRef := unhide (markerRef s2)\<rparr>)"

definition mounted :: Session where
  \<comment> \<open>the session once the queue effect (lines 81 to 99) and the scene effect
      (lines 121 to 226) have run\<close>
  "mounted =
     \<lparr>captureQueueRef = initializeQueue elevationLevels azimuthIncrements,
      capturedPlanesRef = [], captureCountRef = 0, capturingRef = False,
      firstCaptureDoneRef = False, instructions = msg_initial, captureCount = 0,
      isPanoramaComplete = False, previewPanorama = None, queueReady = True,
      isStable = False, thumbnails = [], stabilityTimeoutRef = None,
      rendererRef = True, sceneRef = True, hiddenCanvasRef = True, videoTextureRef = True,
      videoPlaneRef =
        (case initializeQueue elevationLevels azimuthIncrements of
           [] \<Rightarrow> Some \<lparr>placed = None, visible = True\<rparr>
         | firstCapture # _ \<Rightarrow> Some \<lparr>placed = Some firstCapture, visible = True\<rparr>),
      markerRef =
        (case initializeQueue elevationLevels azimuthIncrements of
           [] \<Rightarrow> Some \<lparr>placed = None, visible = True\<rparr>
         | firstCapture # _ \<Rightarrow> Some \<lparr>placed = Some firstCapture, visible = True\<rparr>)\<rparr>"

section \<open>Stability detection\<close>

text \<open>
  \<open>handleMotion\<close> (lines 292 to 330) reads the six axis values of a \<open>devicemotion\<close>
  event, each as \<open>(v || 0)\<close>. The values are JavaScript doubles, taken here as reals;
  a null axis is \<open>None\<close>. Time is in whole milliseconds. \<open>stabilityTimeoutRef\<close> holds
  the deadline of the timer that is pending, if any: \<open>clearTimeout\<close> on a timer that
  has fired or was cleared does nothing.
\<close>

record MotionEvent =
  acceleration_x :: "real option"
  acceleration_y :: "real option"
  acceleration_z :: "real option"
  rotationRate_alpha :: "real option"
  rotationRate_beta :: "real option"
  rotationRate_gamma :: "real option"

definition motionThreshold :: real where
  "motionThreshold = 0.05"

definition stableDuration :: nat where
  "stableDuration = 300"

definition or_zero :: "real option \<Rightarrow> real" where
  \<comment> \<open>\<open>(v || 0)\<close>\<close>
  "or_zero v = (case v of None \<Rightarrow> 0 | Some r \<Rightarrow> r)"

definition accMagnitude :: "MotionEvent \<Rightarrow> real" where
  "accMagnitude event =
     sqrt ((or_zero (acceleration_x event))\<^sup>2 + (or_zero (acceleration_y event))\<^sup>2 +
           (or_zero (acceleration_z event))\<^sup>2)"

definition rotMagnitude :: "MotionEvent \<Rightarrow> real" where
  "rotMagnitude event =
     sqrt ((or_zero (rotationRate_alpha event))\<^sup>2 + (or_zero (rotationRate_beta event))\<^sup>2 +
           (or_zero (rotationRate_gamma event))\<^sup>2)"

definition handleMotion :: "nat \<Rightarrow> MotionEvent \<Rightarrow> Session \<Rightarrow> Session" where
  \<comment> \<open>\<open>now\<close> is the time of the event\<close>
  "handleMotion now event s =
     (if accMagnitude event < motionThreshold \<and> rotMagnitude event < motionThreshold
      then (if \<not> isStable s
            then s\<lparr>isStable := True, stabilityTimeoutRef := None\<rparr>
            else s)
      else
        let s1 = (if isStable s then s\<lparr>isStable := False\<rparr> else s)
        in s1\<lparr>stabilityTimeoutRef := Some (now + stableDuration)\<rparr>)"

definition timeout_fired :: "Session \<Rightarrow> Session" where
  \<comment> \<open>the timer callback, lines 326 to 328: \<open>setIsStable(false)\<close>\<close>
  "timeout_fired s = s\<lparr>isStable := False, stabilityTimeoutRef := None\<rparr>"

definition expire :: "nat \<Rightarrow> Session \<Rightarrow> Session" where
  \<comment> \<open>a pending timer whose deadline has passed fires before the next event\<close>
  "expire now s =
     (case stabilityTimeoutRef s of
        None \<Rightarrow> s
      | Some deadline \<Rightarrow> if deadline \<le> now then timeout_fired s else s)"

fun feed :: "(nat \<times> MotionEvent) list \<Rightarrow> Session \<Rightarrow> Session" where
  "feed [] s = s"
| "feed ((now, event) # rest) s = feed rest (handleMotion now event (expire now s))"

definition still :: MotionEvent where
  \<comment> \<open>a device at rest: every axis reads 0\<close>
  "still =
     \<lparr>acceleration_x = Some 0, acceleration_y = Some 0, acceleration_z = Some 0,
      rotationRate_alpha = Some 0, rotationRate_beta = Some 0, rotationRate_gamma = Some 0\<rparr>"

section \<open>Runs of capture attempts\<close>

text \<open>
  One attempt carried through: \<open>performCapture\<close> with a steady device and, when it
  starts a capture, the \<open>onload\<close> callback next. The second component is the target
  the attempt dequeued, if any.
\<close>

definition capture_once ::
  "bool \<Rightarrow> ImageData \<Rightarrow> Session \<Rightarrow> error + (Session \<times> CaptureTarget option)" where
  "capture_once isAuto frame s =
     (case performCapture True isAuto frame s of
        (s1, Started p) \<Rightarrow>
          (case capture_onload p s1 of
             Inl e \<Rightarrow> Inl e
           | Inr s2 \<Rightarrow> Inr (s2, Some (p_target p)))
      | (s1, _) \<Rightarrow> Inr (s1, None))"

fun capture_run ::
  "(bool \<times> ImageData) list \<Rightarrow> Session \<Rightarrow> error + (Session \<times> CaptureTarget option list)" where
  "capture_run [] s = Inr (s, [])"
| "capture_run ((isAuto, frame) # rest) s =
     (case capture_once isAuto frame s of
        Inl e \<Rightarrow> Inl e
      | Inr (s1, t) \<Rightarrow>
          (case capture_run rest s1 of
             Inl e \<Rightarrow> Inl e
           | Inr (s2, ts) \<Rightarrow> Inr (s2, t # ts)))"

definition available :: "Session \<Rightarrow> bool" where
  \<comment> \<open>the negation of the test of line 370\<close>
  "available s =
     (rendererRef s \<and> sceneRef s \<and> videoPlaneRef s \<noteq> None \<and> markerRef s \<noteq> None \<and>
      hiddenCanvasRef s \<and> videoTextureRef s)"

definition blank :: ImageData where
  "blank = \<lparr>width = 0, height = 0, data = []\<rparr>"

definition three_targets :: Session where
  \<comment> \<open>the mounted session with the plan \<open>[(0,0), (40,0), (80,0)]\<close>\<close>
  "three_targets =
     mounted\<lparr>captureQueueRef :=
       [\<lparr>azimuth = 0, elevation = 0\<rparr>, \<lparr>azimuth = 40, elevation = 0\<rparr>,
        \<lparr>azimuth = 80, elevation = 0\<rparr>]\<rparr>"

definition completed :: "Session \<Rightarrow> bool" where
  \<comment> \<open>what both completion branches (lines 376 to 385 and 476 to 485) leave behind\<close>
  "completed s =
     (isPanoramaComplete s \<and> instructions s = msg_completed \<and>
      videoPlaneRef s = hide (videoPlaneRef s) \<and> markerRef s = hide (markerRef s))"

section \<open>The video source\<close>

text \<open>
  Lines 397 to 403 of \<open>performCapture\<close> take the frame from the video element:
  the hidden canvas is sized to \<open>video.videoWidth || 1280\<close> by
  \<open>video.videoHeight || 720\<close>, which clears it to transparent black, and
  \<open>drawImage\<close> copies the current frame of the video onto it. A video element that
  has no current frame yet (no stream, or a stream that has not delivered data) has
  nothing to draw, and so has a source of width or height 0; the canvas then stays
  blank. With a current frame the canvas has the size of the video and the frame is
  copied unscaled. No branch of these lines reports a failure, and the images created
  from the canvas have no \<open>onerror\<close> handler.
\<close>

record VideoElement =
  videoWidth :: nat
  videoHeight :: nat
  currentFrame :: "u8 list option"

definition acquire_frame :: "VideoElement \<Rightarrow> ImageData" where
  "acquire_frame video =
     (let w = (if videoWidth video = 0 then 1280 else videoWidth video);
          h = (if videoHeight video = 0 then 720 else videoHeight video)
      in \<lparr>width = w, height = h,
          data = (case currentFrame video of
                    None \<Rightarrow> replicate (w * h * 4) 0
                  | Some bytes \<Rightarrow>
                      if videoWidth video = 0 \<or> videoHeight video = 0
                      then replicate (w * h * 4) 0 else bytes)\<rparr>)"

definition no_signal :: VideoElement where
  \<comment> \<open>the video element while the camera delivers nothing: \<open>getUserMedia\<close> pending or
      refused (lines 187 to 196)\<close>
  "no_signal = \<lparr>videoWidth = 0, videoHeight = 0, currentFrame = None\<rparr>"

definition blank_pending :: Pending where
  \<comment> \<open>the closure of a manual capture started on the mounted session without a signal\<close>
  "blank_pending =
     \<lparr>p_target = \<lparr>azimuth = 0, elevation = 0\<rparr>,
      p_queue = tl (initializeQueue elevationLevels azimuthIncrements),
      p_isAuto = False, p_frame = acquire_frame no_signal\<rparr>"

definition unmounted :: Session where
  \<comment> \<open>the session after the queue effect and before the scene effect: every ref of the
      scene still holds its initial null\<close>
  "unmounted =
     mounted\<lparr>rendererRef := False, sceneRef := False, hiddenCanvasRef := False,
             videoTextureRef := False, videoPlaneRef := None, markerRef := None\<rparr>"

section \<open>The component as a machine driven by events\<close>


datatype event =
    ClickCapture VideoElement
  | ClickReset
  | Tick bool bool VideoElement
  | ImageLoaded nat
  | DeviceMotion nat MotionEvent
  | TimeoutFired









section \<open>The plan and the queue built from it\<close>

lemma increment_of_pos: "0 < increment_of incs elev"
  by (simp add: increment_of_def split: option.split)

lemma ceil_div_ceiling:
  assumes "0 < b"
  shows "int (ceil_div a b) = \<lceil>real a / real b\<rceil>"
proof -
  define n where "n = (a + b - 1) div b"
  have lo: "n * b \<le> a + b - 1"
    unfolding n_def by simp
  have hi: "a + b - 1 < n * b + b"
    unfolding n_def using assms dividend_less_div_times[of b "a + b - 1"] by (simp add: algebra_simps)
  have le: "a \<le> n * b" using hi assms by linarith
  have gt: "n * b < a + b" using lo assms by linarith
  have 1: "real a / real b \<le> real_of_int (int n)"
    using le assms by (simp add: pos_divide_le_eq flip: of_nat_mult)
  have "real n * real b < real a + real b"
    using gt by (metis of_nat_add of_nat_less_iff of_nat_mult)
  then have "(real n - 1) * real b < real a" by (simp add: algebra_simps)
  then have 2: "real_of_int (int n) - 1 < real a / real b"
    using assms by (simp add: pos_less_divide_eq)
  have "\<lceil>real a / real b\<rceil> = int n"
    using 1 2 by (intro ceiling_unique) auto
  then show ?thesis by (simp add: ceil_div_def n_def)
qed

lemma push_band_eq:
  "push_band i captures increment elev queue =
     queue @ map (\<lambda>i. \<lparr>azimuth = i * increment, elevation = elev\<rparr>) [i..<captures]"
proof (induction i captures increment elev queue rule: push_band.induct)
  case (1 i captures increment elev queue)
  show ?case
  proof (cases "i < captures")
    case True
    then show ?thesis
      using "1.IH" by (subst push_band.simps) (simp add: upt_conv_Cons)
  next
    case False
    then show ?thesis by (subst push_band.simps) simp
  qed
qed

lemma pop_excess_take: "pop_excess m queue = take m queue"
proof (induction m queue rule: pop_excess.induct)
  case (1 m queue)
  show ?case
  proof (cases "length queue > m")
    case True
    then show ?thesis
      using "1.IH" by (subst pop_excess.simps) (simp add: butlast_conv_take)
  next
    case False
    then show ?thesis by (subst pop_excess.simps) simp
  qed
qed

lemma band_targets_eq:
  assumes "0 < step"
  shows "band_targets step elev =
     map (\<lambda>i. \<lparr>azimuth = i * step, elevation = elev\<rparr>) [0..<ceil_div 360 step]"
proof -
  have "int (ceil_div 360 step) = \<lceil>360 / real step\<rceil>"
    using ceil_div_ceiling[OF assms, of 360] by simp
  then have "nat \<lceil>360 / real step\<rceil> = ceil_div 360 step"
    by (metis nat_int)
  then show ?thesis by (simp add: band_targets_def)
qed

lemma foldl_push_band:
  "foldl (\<lambda>queue elev.
              push_band 0 (captures_of incs elev) (increment_of incs elev) elev queue) acc levels
   = acc @ coverage_plan levels incs"
  by (induction levels arbitrary: acc)
     (simp_all add: coverage_plan_def push_band_eq band_targets_eq increment_of_pos captures_of_def)

lemma length_coverage_plan: "length (coverage_plan levels incs) = maxCaptures levels incs"
proof -
  have "foldl (\<lambda>total elev. total + captures_of incs elev) k levels
        = k + length (coverage_plan levels incs)" for k
    by (induction levels arbitrary: k)
       (simp_all add: coverage_plan_def band_targets_eq increment_of_pos captures_of_def)
  from this[of 0] show ?thesis by (simp add: maxCaptures_def)
qed

lemma initializeQueue_plan: "initializeQueue levels incs = coverage_plan levels incs"
  by (simp add: initializeQueue_def fill_queue_def foldl_push_band pop_excess_take length_coverage_plan)

lemma newQueue_plan: "newQueue levels incs = coverage_plan levels incs"
  by (simp add: newQueue_def foldl_push_band pop_excess_take length_coverage_plan)

lemma maxCaptures_config: "maxCaptures elevationLevels azimuthIncrements = 39"
  by (simp add: maxCaptures_def elevationLevels_def azimuthIncrements_def captures_of_def
      increment_of_def ceil_div_def)


lemma max_captures_39: "max_captures = 39"
  by (simp add: max_captures_def maxCaptures_config)

lemma plan_config:
  "map (\<lambda>t. (azimuth t, elevation t)) (coverage_plan elevationLevels azimuthIncrements) =
     [(0, 0), (40, 0), (80, 0), (120, 0), (160, 0), (200, 0), (240, 0), (280, 0), (320, 0),
      (0, 30), (45, 30), (90, 30), (135, 30), (180, 30), (225, 30), (270, 30), (315, 30),
      (0, 60), (60, 60), (120, 60), (180, 60), (240, 60), (300, 60),
      (0, 90),
      (0, -30), (45, -30), (90, -30), (135, -30), (180, -30), (225, -30), (270, -30), (315, -30),
      (0, -60), (60, -60), (120, -60), (180, -60), (240, -60), (300, -60),
      (0, -90)]"
  by (simp add: coverage_plan_def elevationLevels_def azimuthIncrements_def band_targets_eq
      increment_of_def ceil_div_def upt_rec)

text \<open>
  C1. With the bands \<open>[0, 30, 60, 90, -30, -60, -90]\<close> and the steps of the table, the
  bands hold 9, 8, 6, 1, 8, 6 and 1 targets, \<open>maxCaptures\<close> is 39, and the queue
  that \<open>initializeQueue\<close> builds (the queue of the mounted session) has 39 entries.
\<close>

theorem capture_count_39:
  "maxCaptures elevationLevels azimuthIncrements = 39 \<and>
   map (captures_of azimuthIncrements) elevationLevels = [9, 8, 6, 1, 8, 6, 1] \<and>
   length (initializeQueue elevationLevels azimuthIncrements) = 39 \<and>
   length (captureQueueRef mounted) = 39"
proof -
  have "map (captures_of azimuthIncrements) elevationLevels = [9, 8, 6, 1, 8, 6, 1]"
    by (simp add: elevationLevels_def azimuthIncrements_def captures_of_def
        increment_of_def ceil_div_def)
  moreover have "length (initializeQueue elevationLevels azimuthIncrements) = 39"
    by (simp add: initializeQueue_plan length_coverage_plan maxCaptures_config)
  ultimately show ?thesis
    by (simp add: maxCaptures_config mounted_def)
qed

lemma resetPanorama_queue:
  assumes "sceneRef s" "videoPlaneRef s \<noteq> None" "markerRef s \<noteq> None"
  shows "captureQueueRef (resetPanorama s) = newQueue elevationLevels azimuthIncrements"
  using assms by (auto simp: resetPanorama_def Let_def split: list.split)

text \<open>
  C4. For every list of bands and every table of steps, \<open>initializeQueue\<close> returns
  the plan of the specification: for each band in the given order, \<open>ceil(360 / step)\<close>
  targets at azimuths \<open>i * step\<close> (not wrapped), concatenated in band order. The
  loops of \<open>resetPanorama\<close> build the same queue, so initialization and every reset
  give the same targets in the same order and number; for the bands and steps of the
  component that is the sequence of 39 targets listed.
\<close>

theorem queue_is_plan:
  "initializeQueue levels incs = coverage_plan levels incs \<and>
   newQueue levels incs = initializeQueue levels incs \<and>
   length (initializeQueue levels incs) = (\<Sum>elev\<leftarrow>levels. nat \<lceil>360 / real (increment_of incs elev)\<rceil>) \<and>
   (sceneRef s \<and> videoPlaneRef s \<noteq> None \<and> markerRef s \<noteq> None \<longrightarrow>
      captureQueueRef (resetPanorama s) = coverage_plan elevationLevels azimuthIncrements) \<and>
   captureQueueRef mounted = coverage_plan elevationLevels azimuthIncrements \<and>
   map (\<lambda>t. (azimuth t, elevation t)) (initializeQueue elevationLevels azimuthIncrements) =
     [(0, 0), (40, 0), (80, 0), (120, 0), (160, 0), (200, 0), (240, 0), (280, 0), (320, 0),
      (0, 30), (45, 30), (90, 30), (135, 30), (180, 30), (225, 30), (270, 30), (315, 30),
      (0, 60), (60, 60), (120, 60), (180, 60), (240, 60), (300, 60),
      (0, 90),
      (0, -30), (45, -30), (90, -30), (135, -30), (180, -30), (225, -30), (270, -30), (315, -30),
      (0, -60), (60, -60), (120, -60), (180, -60), (240, -60), (300, -60),
      (0, -90)]"
proof -
  have len: "length (coverage_plan levels incs) =
      (\<Sum>elev\<leftarrow>levels. nat \<lceil>360 / real (increment_of incs elev)\<rceil>)"
    by (induction levels) (simp_all add: coverage_plan_def band_targets_def)
  have reset: "sceneRef s \<and> videoPlaneRef s \<noteq> None \<and> markerRef s \<noteq> None \<longrightarrow>
      captureQueueRef (resetPanorama s) = coverage_plan elevationLevels azimuthIncrements"
    by (simp add: resetPanorama_queue newQueue_plan)
  have mnt: "captureQueueRef mounted = coverage_plan elevationLevels azimuthIncrements"
    by (simp add: mounted_def initializeQueue_plan)
  have same: "newQueue levels incs = initializeQueue levels incs"
    by (simp only: initializeQueue_plan newQueue_plan)
  have cfg: "map (\<lambda>t. (azimuth t, elevation t)) (initializeQueue elevationLevels azimuthIncrements) =
     [(0, 0), (40, 0), (80, 0), (120, 0), (160, 0), (200, 0), (240, 0), (280, 0), (320, 0),
      (0, 30), (45, 30), (90, 30), (135, 30), (180, 30), (225, 30), (270, 30), (315, 30),
      (0, 60), (60, 60), (120, 60), (180, 60), (240, 60), (300, 60),
      (0, 90),
      (0, -30), (45, -30), (90, -30), (135, -30), (180, -30), (225, -30), (270, -30), (315, -30),
      (0, -60), (60, -60), (120, -60), (180, -60), (240, -60), (300, -60),
      (0, -90)]"
    by (simp only: initializeQueue_plan plan_config)
  have len': "length (initializeQueue levels incs) =
      (\<Sum>elev\<leftarrow>levels. nat \<lceil>360 / real (increment_of incs elev)\<rceil>)"
    by (simp only: initializeQueue_plan len)
  from initializeQueue_plan same len' reset mnt cfg show ?thesis
    by (intro conjI)
qed

theorem queue_is_plan_witness:
  "sceneRef mounted \<and> videoPlaneRef mounted \<noteq> None \<and> markerRef mounted \<noteq> None \<and>
   captureQueueRef (resetPanorama mounted) = coverage_plan elevationLevels azimuthIncrements"
proof -
  have h: "sceneRef mounted \<and> videoPlaneRef mounted \<noteq> None \<and> markerRef mounted \<noteq> None"
    by (simp add: mounted_def split: list.split)
  show ?thesis using h queue_is_plan [of _ _ mounted] by blast
qed

section \<open>The capture pipeline\<close>

lemma hide_eq_None [simp]: "hide obj = None \<longleftrightarrow> obj = None"
  by (simp add: hide_def)

lemma hide_hide [simp]: "hide (hide obj) = hide obj"
  by (cases obj) (simp_all add: hide_def)

lemma unhide_eq_None [simp]: "unhide obj = None \<longleftrightarrow> obj = None"
  by (simp add: unhide_def)

lemma length_add_pointer [simp]: "length (add_pointer planes queue) = length planes"
  by (simp add: add_pointer_def split: list.split)

lemma position_add_pointer [simp]: "map position (add_pointer planes queue) = map position planes"
  by (auto simp: add_pointer_def map_update list_update_same_conv split: list.split)

text \<open>\<open>performCapture\<close>, branch by branch.\<close>

lemma performCapture_unstable:
  "performCapture False isAuto frame s = (s\<lparr>instructions := msg_moving\<rparr>, Unstable)"
  by (simp add: performCapture_def)

lemma performCapture_in_flight:
  "capturingRef s \<Longrightarrow> performCapture True isAuto frame s = (s, InFlight)"
  by (simp add: performCapture_def)

lemma performCapture_unavailable:
  "\<not> capturingRef s \<Longrightarrow> \<not> available s \<Longrightarrow> performCapture True isAuto frame s = (s, Unavailable)"
  by (auto simp: performCapture_def available_def Let_def)

lemma performCapture_empty:
  "\<not> capturingRef s \<Longrightarrow> available s \<Longrightarrow> captureQueueRef s = [] \<Longrightarrow>
   performCapture True isAuto frame s =
     (s\<lparr>instructions := msg_completed, isPanoramaComplete := True,
        videoPlaneRef := hide (videoPlaneRef s), markerRef := hide (markerRef s)\<rparr>, QueueEmpty)"
  by (auto simp: performCapture_def available_def Let_def)

lemma performCapture_started:
  "\<not> capturingRef s \<Longrightarrow> available s \<Longrightarrow> captureQueueRef s = t # rest \<Longrightarrow>
   performCapture True isAuto frame s =
     (s\<lparr>capturingRef := True, captureQueueRef := rest\<rparr>,
      Started \<lparr>p_target = t, p_queue = rest, p_isAuto = isAuto, p_frame = frame\<rparr>)"
  by (auto simp: performCapture_def available_def Let_def)


text \<open>What the \<open>onload\<close> callback changes.\<close>

lemma capture_onload_Inr:
  assumes "videoPlaneRef s \<noteq> None \<or> p_queue p = []"
  shows "\<exists>s'. capture_onload p s = Inr s' \<and>
           captureQueueRef s' = captureQueueRef s \<and>
           map position (capturedPlanesRef s') = map position (capturedPlanesRef s) @ [p_target p] \<and>
           captureCountRef s' = Suc (captureCountRef s) \<and>
           captureCount s' = Suc (captureCountRef s) \<and>
           length (thumbnails s') = Suc (length (thumbnails s)) \<and>
           \<not> capturingRef s' \<and>
           available s' = available s \<and>
           sceneRef s' = sceneRef s \<and>
           (videoPlaneRef s' = None \<longleftrightarrow> videoPlaneRef s = None) \<and>
           (markerRef s' = None \<longleftrightarrow> markerRef s = None) \<and>
           isStable s' = isStable s \<and>
           firstCaptureDoneRef s' = (firstCaptureDoneRef s \<or> \<not> p_isAuto p) \<and>
           isPanoramaComplete s' = (isPanoramaComplete s \<or> max_captures \<le> Suc (captureCountRef s)) \<and>
           (max_captures \<le> Suc (captureCountRef s) \<longrightarrow>
              instructions s' = msg_completed \<and>
              videoPlaneRef s' = hide (videoPlaneRef s') \<and> markerRef s' = hide (markerRef s'))"
  using assms
  by (cases "p_queue p"; cases "videoPlaneRef s")
     (auto simp: capture_onload_def Let_def available_def hide_def option.map_comp comp_def)


lemma capture_once_step:
  assumes "available s" "\<not> capturingRef s" "captureQueueRef s = t # rest"
  shows "\<exists>s'. capture_once isAuto frame s = Inr (s', Some t) \<and>
           captureQueueRef s' = rest \<and>
           map position (capturedPlanesRef s') = map position (capturedPlanesRef s) @ [t] \<and>
           captureCountRef s' = Suc (captureCountRef s) \<and>
           captureCount s' = Suc (captureCountRef s) \<and>
           \<not> capturingRef s' \<and> available s' \<and>
           (max_captures \<le> Suc (captureCountRef s) \<longrightarrow> completed s')"
proof -
  let ?s1 = "s\<lparr>capturingRef := True, captureQueueRef := rest\<rparr>"
  let ?p = "\<lparr>p_target = t, p_queue = rest, p_isAuto = isAuto, p_frame = frame\<rparr>"
  have start: "performCapture True isAuto frame s = (?s1, Started ?p)"
    using assms by (simp add: performCapture_started)
  have "videoPlaneRef ?s1 \<noteq> None \<or> p_queue ?p = []"
    using assms(1) by (simp add: available_def)
  from capture_onload_Inr [OF this] obtain s' where
    s': "capture_onload ?p ?s1 = Inr s'"
      "captureQueueRef s' = captureQueueRef ?s1"
      "map position (capturedPlanesRef s') = map position (capturedPlanesRef ?s1) @ [p_target ?p]"
      "captureCountRef s' = Suc (captureCountRef ?s1)"
      "captureCount s' = Suc (captureCountRef ?s1)"
      "\<not> capturingRef s'"
      "available s' = available ?s1"
      "isPanoramaComplete s' = (isPanoramaComplete ?s1 \<or> max_captures \<le> Suc (captureCountRef ?s1))"
      "max_captures \<le> Suc (captureCountRef ?s1) \<longrightarrow>
              instructions s' = msg_completed \<and>
              videoPlaneRef s' = hide (videoPlaneRef s') \<and> markerRef s' = hide (markerRef s')"
    by blast
  have "capture_once isAuto frame s = Inr (s', Some t)"
    by (simp add: capture_once_def start s'(1))
  moreover have "available s'"
    using s'(7) assms(1) by (simp add: available_def)
  ultimately show ?thesis
    using s'(2-6,8,9) by (intro exI [of _ s']) (simp add: completed_def)
qed

lemma capture_run_drain:
  assumes "available s" "\<not> capturingRef s" "length attempts = length (captureQueueRef s)"
  shows "\<exists>s'. capture_run attempts s = Inr (s', map Some (captureQueueRef s)) \<and>
           captureQueueRef s' = [] \<and>
           map position (capturedPlanesRef s') =
             map position (capturedPlanesRef s) @ captureQueueRef s \<and>
           captureCountRef s' = captureCountRef s + length (captureQueueRef s) \<and>
           \<not> capturingRef s' \<and> available s' \<and>
           (captureQueueRef s \<noteq> [] \<and> max_captures \<le> captureCountRef s + length (captureQueueRef s)
              \<longrightarrow> completed s')"
  using assms
proof (induction attempts arbitrary: s)
  case Nil
  then show ?case by simp
next
  case (Cons a attempts)
  obtain isAuto frame where a: "a = (isAuto, frame)" by (cases a)
  from Cons.prems(3) obtain t rest where q: "captureQueueRef s = t # rest"
    by (cases "captureQueueRef s") auto
  from capture_once_step [OF Cons.prems(1,2) q, of isAuto frame] obtain s1 where
    s1: "capture_once isAuto frame s = Inr (s1, Some t)"
      "captureQueueRef s1 = rest"
      "map position (capturedPlanesRef s1) = map position (capturedPlanesRef s) @ [t]"
      "captureCountRef s1 = Suc (captureCountRef s)"
      "\<not> capturingRef s1" "available s1"
      "max_captures \<le> Suc (captureCountRef s) \<longrightarrow> completed s1"
    by blast
  have len: "length attempts = length (captureQueueRef s1)"
    using Cons.prems(3) q s1(2) by simp
  from Cons.IH [OF s1(6) s1(5) len] obtain s' where
    s': "capture_run attempts s1 = Inr (s', map Some (captureQueueRef s1))"
      "captureQueueRef s' = []"
      "map position (capturedPlanesRef s') =
         map position (capturedPlanesRef s1) @ captureQueueRef s1"
      "captureCountRef s' = captureCountRef s1 + length (captureQueueRef s1)"
      "\<not> capturingRef s'" "available s'"
      "captureQueueRef s1 \<noteq> [] \<and> max_captures \<le> captureCountRef s1 + length (captureQueueRef s1)
              \<longrightarrow> completed s'"
    by blast
  have run: "capture_run (a # attempts) s = Inr (s', map Some (captureQueueRef s))"
    by (simp add: a s1(1) s'(1) q s1(2))
  have complete: "completed s'"
    if "max_captures \<le> captureCountRef s + length (captureQueueRef s)"
  proof (cases rest)
    case Nil
    then have "attempts = []" using len s1(2) by simp
    then have "s' = s1" using s'(1) by simp
    then show ?thesis using that s1(7) q Nil by simp
  next
    case (Cons u us)
    then show ?thesis using s'(7) that s1(2,4) q by simp
  qed
  show ?case
    using run s'(2-6) s1(2-4) q complete by (intro exI [of _ s']) simp
qed

lemma completed_fixpoint:
  assumes "completed s"
  shows "s\<lparr>instructions := msg_completed, isPanoramaComplete := True,
          videoPlaneRef := hide (videoPlaneRef s), markerRef := hide (markerRef s)\<rparr> = s"
  using assms unfolding completed_def by (cases s) simp

lemma resetPanorama_fields:
  assumes "sceneRef s" "videoPlaneRef s \<noteq> None" "markerRef s \<noteq> None"
  shows "capturedPlanesRef (resetPanorama s) = []"
    "captureCountRef (resetPanorama s) = 0"
    "captureCount (resetPanorama s) = 0"
    "thumbnails (resetPanorama s) = []"
    "\<not> capturingRef (resetPanorama s)"
    "\<not> firstCaptureDoneRef (resetPanorama s)"
    "\<not> isPanoramaComplete (resetPanorama s)"
    "videoPlaneRef (resetPanorama s) \<noteq> None"
    "markerRef (resetPanorama s) \<noteq> None"
    "available (resetPanorama s) = available s"
  using assms
  by (auto simp: resetPanorama_def Let_def available_def unhide_def split: list.split)

lemma available_mounted: "available mounted"
  by (simp add: available_def mounted_def split: list.split)

lemma idle_mounted: "\<not> capturingRef mounted"
  by (simp add: mounted_def)

section \<open>Rejected and ignored attempts\<close>

text \<open>
  C10. An attempt made while \<open>isStable\<close> is false is rejected: \<open>performCapture\<close>
  returns the session with only the instruction message changed, whatever the in-flight
  flag, the resources and the queue are, for a manual and for an automatic attempt alike.
  The Capture button's handler, with an unsteady device, either reaches that rejection or
  does not call \<open>performCapture\<close> at all; the animation loop of an unsteady render does
  not trigger. Nothing is dequeued, no tile is committed and no counter changes.
\<close>

theorem unstable_attempt_rejected:
  "performCapture False isAuto frame s = (s\<lparr>instructions := msg_moving\<rparr>, Unstable) \<and>
   autoCaptureImage False frame s = (s\<lparr>instructions := msg_moving\<rparr>, Unstable) \<and>
   animate False centered frame s = (s, NotTriggered) \<and>
   (\<not> isStable s \<longrightarrow>
      captureImage frame s =
        (if \<not> capturingRef s \<and> captureCountRef s < max_captures
         then (s\<lparr>instructions := msg_moving\<rparr>, Unstable) else (s, NotTriggered)))"
  by (simp add: performCapture_unstable autoCaptureImage_def animate_def captureImage_def)

theorem unstable_attempt_rejected_witness:
  "\<not> isStable mounted \<and>
   captureImage blank mounted = (mounted\<lparr>instructions := msg_moving\<rparr>, Unstable) \<and>
   captureQueueRef (fst (captureImage blank mounted)) = captureQueueRef mounted \<and>
   capturedPlanesRef (fst (captureImage blank mounted)) = [] \<and>
   captureCountRef (fst (captureImage blank mounted)) = 0"
proof -
  have h: "\<not> isStable mounted" by (simp add: mounted_def)
  have idle: "\<not> capturingRef mounted \<and> captureCountRef mounted < max_captures"
    by (simp add: mounted_def max_captures_39)
  have "captureImage blank mounted = (mounted\<lparr>instructions := msg_moving\<rparr>, Unstable)"
    using unstable_attempt_rejected [of False blank mounted] h idle by simp
  then show ?thesis using h by (simp add: mounted_def)
qed

text \<open>
  C7. While \<open>capturingRef\<close> is set, a second trigger is ignored: the Capture button's
  handler and a tick of the animation loop leave the whole session as it is, and so does
  \<open>performCapture\<close> called with a steady device. \<open>performCapture\<close> never dequeues,
  appends a tile or changes a counter or the flag in that state (with an unsteady device
  the stability test, which comes first, writes its message).
\<close>

theorem in_flight_trigger_ignored:
  assumes "capturingRef s"
  shows "captureImage frame s = (s, NotTriggered) \<and>
         animate steady centered frame s = (s, NotTriggered) \<and>
         performCapture True isAuto frame s = (s, InFlight) \<and>
         captureQueueRef (fst (performCapture steady isAuto frame s)) = captureQueueRef s \<and>
         capturedPlanesRef (fst (performCapture steady isAuto frame s)) = capturedPlanesRef s \<and>
         captureCountRef (fst (performCapture steady isAuto frame s)) = captureCountRef s \<and>
         captureCount (fst (performCapture steady isAuto frame s)) = captureCount s \<and>
         thumbnails (fst (performCapture steady isAuto frame s)) = thumbnails s \<and>
         capturingRef (fst (performCapture steady isAuto frame s)) \<and>
         snd (performCapture steady isAuto frame s) = (if steady then InFlight else Unstable)"
  using assms by (simp add: captureImage_def animate_def performCapture_def)

theorem in_flight_trigger_ignored_witness:
  "capturingRef (mounted\<lparr>capturingRef := True\<rparr>) \<and>
   captureImage blank (mounted\<lparr>capturingRef := True\<rparr>) = (mounted\<lparr>capturingRef := True\<rparr>, NotTriggered) \<and>
   animate True True blank (mounted\<lparr>capturingRef := True\<rparr>) = (mounted\<lparr>capturingRef := True\<rparr>, NotTriggered) \<and>
   performCapture True True blank (mounted\<lparr>capturingRef := True\<rparr>) = (mounted\<lparr>capturingRef := True\<rparr>, InFlight)"
proof -
  have h: "capturingRef (mounted\<lparr>capturingRef := True\<rparr>)" by simp
  show ?thesis
    using h in_flight_trigger_ignored [OF h, of blank True True True] by blast
qed

section \<open>Draining the queue and completion\<close>

text \<open>
  C5. From an idle session with every resource present and a queue of \<open>N\<close> targets
  (the mounted session and a session after \<open>resetPanorama\<close> are such sessions), \<open>N\<close>
  attempts carried through, manual or automatic, dequeue exactly the \<open>N\<close> targets of
  the queue in queue order, one per attempt, and place the tiles in that order. The
  queue is then empty, and one more attempt finds it empty: it dequeues nothing, starts
  no capture, appends and counts nothing, and returns normally (it only reports
  completion).
\<close>

theorem fifo_drain:
  assumes "available s" "\<not> capturingRef s" "length attempts = length (captureQueueRef s)"
  shows "\<exists>s'. capture_run attempts s = Inr (s', map Some (captureQueueRef s)) \<and>
           captureQueueRef s' = [] \<and>
           map position (capturedPlanesRef s') =
             map position (capturedPlanesRef s) @ captureQueueRef s \<and>
           captureCountRef s' = captureCountRef s + length (captureQueueRef s) \<and>
           snd (performCapture True isAuto frame s') = QueueEmpty \<and>
           captureQueueRef (fst (performCapture True isAuto frame s')) = [] \<and>
           capturedPlanesRef (fst (performCapture True isAuto frame s')) = capturedPlanesRef s' \<and>
           captureCountRef (fst (performCapture True isAuto frame s')) = captureCountRef s' \<and>
           capture_once isAuto frame s' = Inr (fst (performCapture True isAuto frame s'), None)"
proof -
  from capture_run_drain [OF assms] obtain s' where
    s': "capture_run attempts s = Inr (s', map Some (captureQueueRef s))"
      "captureQueueRef s' = []"
      "map position (capturedPlanesRef s') =
         map position (capturedPlanesRef s) @ captureQueueRef s"
      "captureCountRef s' = captureCountRef s + length (captureQueueRef s)"
      "\<not> capturingRef s'" "available s'"
    by blast
  have "performCapture True isAuto frame s' =
     (s'\<lparr>instructions := msg_completed, isPanoramaComplete := True,
        videoPlaneRef := hide (videoPlaneRef s'), markerRef := hide (markerRef s')\<rparr>, QueueEmpty)"
    using s'(5,6,2) by (rule performCapture_empty)
  then show ?thesis
    using s'(1-4) by (intro exI [of _ s']) (simp add: capture_once_def)
qed

theorem fifo_drain_witness:
  "available three_targets \<and> \<not> capturingRef three_targets \<and>
   length [(False, blank), (True, blank), (True, blank)] = length (captureQueueRef three_targets) \<and>
   (\<exists>s'. capture_run [(False, blank), (True, blank), (True, blank)] three_targets =
           Inr (s', [Some \<lparr>azimuth = 0, elevation = 0\<rparr>, Some \<lparr>azimuth = 40, elevation = 0\<rparr>,
                     Some \<lparr>azimuth = 80, elevation = 0\<rparr>]) \<and>
         captureQueueRef s' = [] \<and> captureCountRef s' = 3 \<and>
         snd (performCapture True True blank s') = QueueEmpty)"
proof -
  have a: "available three_targets"
    using available_mounted by (simp add: three_targets_def available_def)
  have b: "\<not> capturingRef three_targets"
    by (simp add: three_targets_def mounted_def)
  have c: "length [(False, blank), (True, blank), (True, blank)] = length (captureQueueRef three_targets)"
    by (simp add: three_targets_def)
  have q: "captureQueueRef three_targets =
      [\<lparr>azimuth = 0, elevation = 0\<rparr>, \<lparr>azimuth = 40, elevation = 0\<rparr>, \<lparr>azimuth = 80, elevation = 0\<rparr>]"
    by (simp add: three_targets_def)
  have n: "captureCountRef three_targets = 0"
    by (simp add: three_targets_def mounted_def)
  from fifo_drain [OF a b c, of True blank] obtain s' where
    "capture_run [(False, blank), (True, blank), (True, blank)] three_targets =
       Inr (s', map Some (captureQueueRef three_targets))"
    "captureQueueRef s' = []"
    "captureCountRef s' = captureCountRef three_targets + length (captureQueueRef three_targets)"
    "snd (performCapture True True blank s') = QueueEmpty"
    by blast
  then have "capture_run [(False, blank), (True, blank), (True, blank)] three_targets =
           Inr (s', [Some \<lparr>azimuth = 0, elevation = 0\<rparr>, Some \<lparr>azimuth = 40, elevation = 0\<rparr>,
                     Some \<lparr>azimuth = 80, elevation = 0\<rparr>]) \<and>
         captureQueueRef s' = [] \<and> captureCountRef s' = 3 \<and>
         snd (performCapture True True blank s') = QueueEmpty"
    by (simp add: q n)
  then show ?thesis using a b c by blast
qed

text \<open>
  C8. In a session whose count and queue length add up to \<open>maxCaptures\<close> (as in the
  mounted session), capturing every remaining target, the last one included, empties the
  queue, brings the count to \<open>maxCaptures\<close> and sets \<open>isPanoramaComplete\<close>. After that
  a tick of the animation loop and the Capture button trigger nothing, and a direct
  \<open>autoCaptureImage\<close> finds the queue empty and leaves the session as it is; only
  \<open>resetPanorama\<close> clears the flag and restores the plan.
\<close>

theorem completion_is_terminal:
  assumes "available s" "\<not> capturingRef s" "captureQueueRef s \<noteq> []"
    "length attempts = length (captureQueueRef s)"
    "captureCountRef s + length (captureQueueRef s) = max_captures"
  shows "\<exists>s'. capture_run attempts s = Inr (s', map Some (captureQueueRef s)) \<and>
           captureQueueRef s' = [] \<and> captureCountRef s' = max_captures \<and>
           isPanoramaComplete s' \<and>
           (\<forall>steady centered frame. animate steady centered frame s' = (s', NotTriggered)) \<and>
           (\<forall>frame. captureImage frame s' = (s', NotTriggered)) \<and>
           (\<forall>frame. autoCaptureImage True frame s' = (s', QueueEmpty)) \<and>
           \<not> isPanoramaComplete (resetPanorama s') \<and>
           captureQueueRef (resetPanorama s') = coverage_plan elevationLevels azimuthIncrements"
proof -
  from capture_run_drain [OF assms(1,2,4)] assms(3,5) obtain s' where
    s': "capture_run attempts s = Inr (s', map Some (captureQueueRef s))"
      "captureQueueRef s' = []"
      "captureCountRef s' = max_captures"
      "\<not> capturingRef s'" "available s'" "completed s'"
    by auto
  have auto_noop: "autoCaptureImage True frame s' = (s', QueueEmpty)" for frame
    using performCapture_empty [OF s'(4,5,2)] completed_fixpoint [OF s'(6)]
    by (simp add: autoCaptureImage_def)
  have refs: "sceneRef s'" "videoPlaneRef s' \<noteq> None" "markerRef s' \<noteq> None"
    using s'(5) by (simp_all add: available_def)
  have "isPanoramaComplete s'" using s'(6) by (simp add: completed_def)
  moreover have "animate steady centered frame s' = (s', NotTriggered)" for steady centered frame
    using s'(3) by (simp add: animate_def)
  moreover have "captureImage frame s' = (s', NotTriggered)" for frame
    using s'(3) by (simp add: captureImage_def)
  moreover have "captureQueueRef (resetPanorama s') = coverage_plan elevationLevels azimuthIncrements"
    using refs by (simp add: resetPanorama_queue newQueue_plan)
  ultimately show ?thesis
    using s'(1-3) auto_noop resetPanorama_fields(7) [OF refs]
    by (intro exI [of _ s']) simp
qed

theorem completion_is_terminal_witness:
  "available mounted \<and> \<not> capturingRef mounted \<and> captureQueueRef mounted \<noteq> [] \<and>
   length (replicate 39 (True, blank)) = length (captureQueueRef mounted) \<and>
   captureCountRef mounted + length (captureQueueRef mounted) = max_captures \<and>
   (\<exists>s'. capture_run (replicate 39 (True, blank)) mounted = Inr (s', map Some (captureQueueRef mounted)) \<and>
         isPanoramaComplete s' \<and> captureCountRef s' = 39 \<and>
         animate True True blank s' = (s', NotTriggered))"
proof -
  have len: "length (captureQueueRef mounted) = 39"
    by (simp add: mounted_def initializeQueue_plan length_coverage_plan maxCaptures_config)
  have c: "captureQueueRef mounted \<noteq> []" using len by auto
  have d: "length (replicate 39 (True, blank)) = length (captureQueueRef mounted)"
    using len by simp
  have e: "captureCountRef mounted + length (captureQueueRef mounted) = max_captures"
    using len by (simp add: max_captures_39) (simp add: mounted_def)
  from completion_is_terminal [OF available_mounted idle_mounted c d e]
  have "\<exists>s'. capture_run (replicate 39 (True, blank)) mounted = Inr (s', map Some (captureQueueRef mounted)) \<and>
         isPanoramaComplete s' \<and> captureCountRef s' = 39 \<and>
         animate True True blank s' = (s', NotTriggered)"
    by (auto simp: max_captures_39)
  then show ?thesis using available_mounted idle_mounted c d e by blast
qed

section \<open>Stability\<close>

lemma initial_queue_head:
  "initializeQueue elevationLevels azimuthIncrements =
     \<lparr>azimuth = 0, elevation = 0\<rparr> # tl (initializeQueue elevationLevels azimuthIncrements)"
  by (simp add: initializeQueue_plan coverage_plan_def elevationLevels_def azimuthIncrements_def
      band_targets_eq increment_of_def ceil_div_def upt_rec)

text \<open>Stability: a sample below the threshold sets \<open>isStable\<close> at once.\<close>

lemma still_below_threshold:
  "accMagnitude still < motionThreshold \<and> rotMagnitude still < motionThreshold"
  by (simp add: accMagnitude_def rotMagnitude_def still_def motionThreshold_def or_zero_def)

lemma handleMotion_below:
  assumes "accMagnitude event < motionThreshold" "rotMagnitude event < motionThreshold"
  shows "isStable (handleMotion now event s)"
  using assms by (simp add: handleMotion_def)

text \<open>
  C2 at a concrete input. The mounted session is not stable and has no timer pending.
  One \<open>devicemotion\<close> event at time 0 with every axis at 0 makes \<open>isStable\<close> true
  at once, although the magnitude has been below the threshold for 0 ms and
  \<open>stableDuration\<close> is 300 ms.
\<close>

theorem stable_without_dwell:
  "\<not> isStable mounted \<and> stabilityTimeoutRef mounted = None \<and>
   isStable (feed [(0, still)] mounted) \<and> 0 < stableDuration"
  using still_below_threshold
  by (simp add: expire_def handleMotion_below stableDuration_def) (simp add: mounted_def)


section \<open>The sharpening filter\<close>

lemma kernel_sum:
  "convolve_pixel dat w h x y =
     (convolution dat w h 0 x y, convolution dat w h 1 x y, convolution dat w h 2 x y)"
  by (simp add: convolve_pixel_def convolution_def kernel_tap_def kernel_def kernel_rows_def
      channel_at_def upt_rec Let_def)

lemma pixel_in_image:
  fixes x y w h :: nat
  assumes "x < w" "y < h"
  shows "(y * w + x) * 4 + 3 < w * h * 4"
proof -
  have "y * w + x < Suc y * w" using assms(1) by simp
  also have "\<dots> \<le> h * w" using assms(2) by (intro mult_le_mono1) simp
  finally show ?thesis by (simp add: mult.commute)
qed

lemma pixel_index_inj:
  assumes "x < w" "x' < w" "y * w + x = y' * w + x'"
  shows "y = y' \<and> x = (x' :: nat)"
proof -
  have "(y * w + x) div w = y" "(y * w + x) mod w = x"
    "(y' * w + x') div w = y'" "(y' * w + x') mod w = x'"
    using assms(1,2) by simp_all
  then show ?thesis using assms(3) by metis
qed

lemma length_write_pixel [simp]: "length (write_pixel dat w h y out x) = length out"
  by (simp add: write_pixel_def Let_def split: prod.split)

lemma write_pixel_nth:
  assumes "(y * w + x) * 4 + 3 < length out"
  shows "write_pixel dat w h y out x ! n =
     (if (y * w + x) * 4 \<le> n \<and> n < (y * w + x) * 4 + 4
      then pixel_bytes dat w h x y ! (n - (y * w + x) * 4) else out ! n)"
proof -
  obtain r g b where c: "convolve_pixel dat w h x y = (r, g, b)"
    by (cases "convolve_pixel dat w h x y")
  let ?i = "(y * w + x) * 4"
  consider "n = ?i" | "n = ?i + 1" | "n = ?i + 2" | "n = ?i + 3" | "n < ?i" | "?i + 4 \<le> n"
    by linarith
  then show ?thesis
    using assms by cases (simp_all add: write_pixel_def pixel_bytes_def c Let_def)
qed

lemma length_row [simp]: "length (foldl (write_pixel dat w h y) out xs) = length out"
  by (induction xs arbitrary: out) simp_all

lemma row_nth:
  assumes "\<forall>x \<in> set xs. x < w" "y < h" "length out = w * h * 4" "x' < w" "c < 4"
  shows "foldl (write_pixel dat w h y) out xs ! ((y' * w + x') * 4 + c) =
     (if y' = y \<and> x' \<in> set xs then pixel_bytes dat w h x' y ! c
      else out ! ((y' * w + x') * 4 + c))"
  using assms(1)
proof (induction xs rule: rev_induct)
  case Nil
  then show ?case by simp
next
  case (snoc x xs)
  have xw: "x < w" using snoc.prems by simp
  have bound: "(y * w + x) * 4 + 3 < length (foldl (write_pixel dat w h y) out xs)"
    using pixel_in_image [OF xw assms(2)] assms(3) by simp
  have IH: "foldl (write_pixel dat w h y) out xs ! ((y' * w + x') * 4 + c) =
     (if y' = y \<and> x' \<in> set xs then pixel_bytes dat w h x' y ! c
      else out ! ((y' * w + x') * 4 + c))"
    using snoc by simp
  show ?case
  proof (cases "y' = y \<and> x' = x")
    case True
    then show ?thesis
      using assms(5) by (simp add: write_pixel_nth [OF bound])
  next
    case False
    define a b where "a = y * w + x" and "b = y' * w + x'"
    have "a \<noteq> b"
      using pixel_index_inj [OF xw assms(4)] False unfolding a_def b_def by metis
    then have "\<not> (a * 4 \<le> b * 4 + c \<and> b * 4 + c < a * 4 + 4)"
      using assms(5) by arith
    then have "\<not> ((y * w + x) * 4 \<le> (y' * w + x') * 4 + c \<and>
        (y' * w + x') * 4 + c < (y * w + x) * 4 + 4)"
      unfolding a_def b_def .
    then show ?thesis
      using False IH by (auto simp: write_pixel_nth [OF bound])
  qed
qed

lemma rows_nth:
  assumes "\<forall>y \<in> set ys. y < h" "length out = w * h * 4" "x' < w" "c < 4"
  shows "foldl (\<lambda>outData y. foldl (write_pixel dat w h y) outData [0..<w]) out ys
           ! ((y' * w + x') * 4 + c) =
     (if y' \<in> set ys then pixel_bytes dat w h x' y' ! c else out ! ((y' * w + x') * 4 + c))"
  using assms(1)
proof (induction ys rule: rev_induct)
  case Nil
  then show ?case by simp
next
  case (snoc y ys)
  let ?prev = "foldl (\<lambda>outData y. foldl (write_pixel dat w h y) outData [0..<w]) out ys"
  have len: "length ?prev = w * h * 4"
    using assms(2) by (induction ys rule: rev_induct) simp_all
  have yh: "y < h" using snoc.prems by simp
  have "\<forall>x \<in> set [0..<w]. x < w" by simp
  from row_nth [OF this yh len assms(3,4), of dat y']
  show ?case using snoc assms(3) by auto
qed

lemma length_sharpen_data: "length (sharpen_data dat w h) = w * h * 4"
proof -
  have "length (foldl (\<lambda>outData y. foldl (write_pixel dat w h y) outData [0..<w]) out ys) = length out"
    for out ys
    by (induction ys rule: rev_induct) simp_all
  then show ?thesis by (simp add: sharpen_data_def)
qed

lemma sharpen_data_nth:
  assumes "x < w" "y < h" "c < 4"
  shows "sharpen_data dat w h ! ((y * w + x) * 4 + c) = pixel_bytes dat w h x y ! c"
proof -
  have "\<forall>y \<in> set [0..<h]. y < h" by simp
  from rows_nth [OF this _ assms(1,3), of "replicate (w * h * 4) 0" dat y]
  show ?thesis using assms(2) by (simp add: sharpen_data_def)
qed

lemma uint_clamp_byte: "uint (clamp_byte v) = clamp_0_255 v"
proof -
  have "0 \<le> min (max v 0) 255" "min (max v 0) 255 < 2 ^ 8" by simp_all
  then have "uint (word_of_int (min (max v 0) 255) :: u8) = min (max v 0) 255"
    by (simp add: uint_word_of_int take_bit_int_eq_self)
  then show ?thesis by (auto simp: clamp_byte_def clamp_0_255_def)
qed

lemma convolution_five_taps:
  "convolution dat w h c x y =
     5 * channel_at dat w h c (int x) (int y)
     - channel_at dat w h c (int x) (int y - 1) - channel_at dat w h c (int x - 1) (int y)
     - channel_at dat w h c (int x + 1) (int y) - channel_at dat w h c (int x) (int y + 1)"
  by (simp add: convolution_def kernel_rows_def upt_rec algebra_simps)

text \<open>
  C9. For every image and every pixel \<open>(x, y)\<close> inside it, the bytes that
  \<open>sharpenImage\<close> stores for the pixel are: for each of R, G and B the sum over the
  3 by 3 kernel \<open>[[0,-1,0],[-1,5,-1],[0,-1,0]]\<close> of weight times channel value, where a
  tap outside the image contributes zero, clamped to \<open>[0, 255]\<close>; and 255 for alpha.
  The output has the size of the input.
\<close>

theorem sharpen_convolves:
  assumes "x < w" "y < h"
  shows "uint (sharpen_data dat w h ! ((y * w + x) * 4)) = clamp_0_255 (convolution dat w h 0 x y) \<and>
         uint (sharpen_data dat w h ! ((y * w + x) * 4 + 1)) = clamp_0_255 (convolution dat w h 1 x y) \<and>
         uint (sharpen_data dat w h ! ((y * w + x) * 4 + 2)) = clamp_0_255 (convolution dat w h 2 x y) \<and>
         sharpen_data dat w h ! ((y * w + x) * 4 + 3) = 255 \<and>
         length (sharpen_data dat w h) = w * h * 4"
proof -
  have b: "pixel_bytes dat w h x y =
     [clamp_byte (convolution dat w h 0 x y), clamp_byte (convolution dat w h 1 x y),
      clamp_byte (convolution dat w h 2 x y), 255]"
    by (simp add: pixel_bytes_def kernel_sum)
  have "sharpen_data dat w h ! ((y * w + x) * 4 + 0) = pixel_bytes dat w h x y ! 0"
    by (rule sharpen_data_nth [OF assms]) simp
  then have c0: "uint (sharpen_data dat w h ! ((y * w + x) * 4)) = clamp_0_255 (convolution dat w h 0 x y)"
    by (simp add: b uint_clamp_byte)
  have "sharpen_data dat w h ! ((y * w + x) * 4 + 1) = pixel_bytes dat w h x y ! 1"
    by (rule sharpen_data_nth [OF assms]) simp
  then have c1: "uint (sharpen_data dat w h ! ((y * w + x) * 4 + 1)) = clamp_0_255 (convolution dat w h 1 x y)"
    by (simp add: b uint_clamp_byte)
  have "sharpen_data dat w h ! ((y * w + x) * 4 + 2) = pixel_bytes dat w h x y ! 2"
    by (rule sharpen_data_nth [OF assms]) simp
  then have c2: "uint (sharpen_data dat w h ! ((y * w + x) * 4 + 2)) = clamp_0_255 (convolution dat w h 2 x y)"
    by (simp add: b uint_clamp_byte)
  have "sharpen_data dat w h ! ((y * w + x) * 4 + 3) = pixel_bytes dat w h x y ! 3"
    by (rule sharpen_data_nth [OF assms]) simp
  then have c3: "sharpen_data dat w h ! ((y * w + x) * 4 + 3) = 255"
    by (simp add: b)
  from c0 c1 c2 c3 length_sharpen_data show ?thesis by (intro conjI)
qed


theorem sharpen_convolves_witness:
  "(0::nat) < 2 \<and> (0::nat) < 2 \<and>
   uint (sharpen_data [10, 20, 30, 255, 200, 100, 50, 255,
                       7, 8, 9, 255, 0, 0, 0, 255] 2 2 ! ((0 * 2 + 0) * 4)) = 0 \<and>
   uint (sharpen_data [10, 20, 30, 255, 200, 100, 50, 255,
                       7, 8, 9, 255, 0, 0, 0, 255] 2 2 ! ((0 * 2 + 0) * 4 + 1)) = 0 \<and>
   uint (sharpen_data [10, 20, 30, 255, 200, 100, 50, 255,
                       7, 8, 9, 255, 0, 0, 0, 255] 2 2 ! ((0 * 2 + 0) * 4 + 2)) = 91 \<and>
   sharpen_data [10, 20, 30, 255, 200, 100, 50, 255,
                 7, 8, 9, 255, 0, 0, 0, 255] 2 2 ! ((0 * 2 + 0) * 4 + 3) = 255"
proof -
  let ?dat = "[10, 20, 30, 255, 200, 100, 50, 255, 7, 8, 9, 255, 0, 0, 0, 255] :: u8 list"
  have h: "(0::nat) < 2" "(0::nat) < 2" by simp_all
  have r: "convolution ?dat 2 2 0 0 0 = -157"
    by (simp add: convolution_def channel_at_def kernel_rows_def upt_rec)
  have g: "convolution ?dat 2 2 (Suc 0) 0 0 = -8"
    by (simp add: convolution_def channel_at_def kernel_rows_def upt_rec)
  have b: "convolution ?dat 2 2 2 0 0 = 91"
    by (simp add: convolution_def channel_at_def kernel_rows_def upt_rec)
  show ?thesis
    using sharpen_convolves [OF h, of ?dat]
    by (simp add: r g b clamp_0_255_def)
qed

section \<open>Events, reset and the video source\<close>















lemma expire_mounted: "expire now mounted = mounted"
  by (simp add: expire_def mounted_def)


lemma steady_mounted:
  "feed [(0, still)] mounted = mounted\<lparr>isStable := True, stabilityTimeoutRef := None\<rparr>"
  "handleMotion 0 still mounted = mounted\<lparr>isStable := True, stabilityTimeoutRef := None\<rparr>"
proof -
  have "\<not> isStable mounted" "stabilityTimeoutRef mounted = None"
    by (simp_all add: mounted_def)
  then show "handleMotion 0 still mounted = mounted\<lparr>isStable := True, stabilityTimeoutRef := None\<rparr>"
    using still_below_threshold by (simp add: handleMotion_def)
  then show "feed [(0, still)] mounted = mounted\<lparr>isStable := True, stabilityTimeoutRef := None\<rparr>"
    using \<open>stabilityTimeoutRef mounted = None\<close> by (simp add: expire_def)
qed

lemma capture_without_signal:
  "captureImage (acquire_frame no_signal) (mounted\<lparr>isStable := True, stabilityTimeoutRef := None\<rparr>) =
     (mounted\<lparr>isStable := True, stabilityTimeoutRef := None, capturingRef := True,
              captureQueueRef := tl (initializeQueue elevationLevels azimuthIncrements)\<rparr>,
      Started blank_pending)"
proof -
  let ?s = "mounted\<lparr>isStable := True, stabilityTimeoutRef := None\<rparr>"
  have q: "captureQueueRef ?s =
      \<lparr>azimuth = 0, elevation = 0\<rparr> # tl (initializeQueue elevationLevels azimuthIncrements)"
    using initial_queue_head by (simp add: mounted_def)
  have idle: "\<not> capturingRef ?s" using idle_mounted by simp
  have av: "available ?s" using available_mounted by (simp add: available_def)
  have n: "captureCountRef ?s < max_captures" by (simp add: max_captures_39) (simp add: mounted_def)
  from performCapture_started [OF idle av q, of False "acquire_frame no_signal"] idle n
  show ?thesis by (simp add: captureImage_def blank_pending_def)
qed

lemma commit_without_signal:
  "\<exists>s'. capture_onload blank_pending
           (mounted\<lparr>isStable := True, stabilityTimeoutRef := None, capturingRef := True,
                    captureQueueRef := tl (initializeQueue elevationLevels azimuthIncrements)\<rparr>) = Inr s' \<and>
         map position (capturedPlanesRef s') = [\<lparr>azimuth = 0, elevation = 0\<rparr>] \<and>
         captureCountRef s' = 1 \<and> captureCount s' = 1 \<and>
         captureQueueRef s' = tl (initializeQueue elevationLevels azimuthIncrements) \<and>
         \<not> isPanoramaComplete s'"
proof -
  let ?s = "mounted\<lparr>isStable := True, stabilityTimeoutRef := None, capturingRef := True,
                    captureQueueRef := tl (initializeQueue elevationLevels azimuthIncrements)\<rparr>"
  have "videoPlaneRef ?s \<noteq> None \<or> p_queue blank_pending = []"
    using available_mounted by (simp add: available_def)
  from capture_onload_Inr [OF this] obtain s' where
    s': "capture_onload blank_pending ?s = Inr s'"
      "captureQueueRef s' = captureQueueRef ?s"
      "map position (capturedPlanesRef s') = map position (capturedPlanesRef ?s) @ [p_target blank_pending]"
      "captureCountRef s' = Suc (captureCountRef ?s)"
      "captureCount s' = Suc (captureCountRef ?s)"
      "isPanoramaComplete s' = (isPanoramaComplete ?s \<or> max_captures \<le> Suc (captureCountRef ?s))"
    by auto
  have m: "capturedPlanesRef mounted = []" "captureCountRef mounted = 0" "\<not> isPanoramaComplete mounted"
    by (simp_all add: mounted_def)
  show ?thesis
    using s' m by (intro exI [of _ s']) (simp add: blank_pending_def max_captures_39)
qed


text \<open>
  C6, as stated, fails. The mounted component, held still, has a video element that
  delivers no frame. A click on Capture passes the test of line 370 (the element
  exists), dequeues the target at azimuth 0, elevation 0 and starts a capture from the
  blank canvas; when its image has loaded, the plane is committed and counted.
\<close>

theorem not_ready_video_counterexample:
  "currentFrame no_signal = None \<and>
   isStable (feed [(0, still)] mounted) \<and> available (feed [(0, still)] mounted) \<and>
   snd (captureImage (acquire_frame no_signal) (feed [(0, still)] mounted)) = Started blank_pending \<and>
   captureQueueRef (fst (captureImage (acquire_frame no_signal) (feed [(0, still)] mounted))) =
     tl (captureQueueRef mounted) \<and>
   map_sum id (map position \<circ> capturedPlanesRef)
     (capture_onload blank_pending
        (fst (captureImage (acquire_frame no_signal) (feed [(0, still)] mounted)))) =
     Inr [\<lparr>azimuth = 0, elevation = 0\<rparr>] \<and>
   map_sum id captureCountRef
     (capture_onload blank_pending
        (fst (captureImage (acquire_frame no_signal) (feed [(0, still)] mounted)))) = Inr 1"
proof -
  from commit_without_signal obtain s' where
    "capture_onload blank_pending
           (mounted\<lparr>isStable := True, stabilityTimeoutRef := None, capturingRef := True,
                    captureQueueRef := tl (initializeQueue elevationLevels azimuthIncrements)\<rparr>) = Inr s'"
    "map position (capturedPlanesRef s') = [\<lparr>azimuth = 0, elevation = 0\<rparr>]"
    "captureCountRef s' = 1"
    by auto
  moreover have "available (mounted\<lparr>isStable := True, stabilityTimeoutRef := None\<rparr>)"
    using available_mounted by (simp add: available_def)
  moreover have "captureQueueRef mounted = initializeQueue elevationLevels azimuthIncrements"
    by (simp add: mounted_def)
  moreover have "currentFrame no_signal = None" by (simp add: no_signal_def)
  ultimately show ?thesis
    by (simp add: expire_mounted steady_mounted capture_without_signal)
qed

text \<open>
  C6, amended. An attempt aborts for lack of a resource only when a ref is missing:
  if the renderer, the scene, the video plane, the marker, the hidden canvas or the
  video element is missing, nothing is dequeued, the captured planes, both counters,
  the thumbnails and the flag are as before, no capture is started, and from an idle
  session with a steady device the session is returned unchanged. With every ref
  present, an idle session and a steady device, the attempt goes ahead whatever the
  video element delivers, with or without a current frame: the head of the queue is
  dequeued and the callback commits and counts a plane for it.
\<close>

theorem abort_only_on_missing_refs:
  "(\<not> available s \<longrightarrow>
      (\<not> capturingRef s \<longrightarrow> performCapture True isAuto (acquire_frame video) s = (s, Unavailable)) \<and>
      captureQueueRef (fst (performCapture steady isAuto (acquire_frame video) s)) = captureQueueRef s \<and>
      capturedPlanesRef (fst (performCapture steady isAuto (acquire_frame video) s)) = capturedPlanesRef s \<and>
      captureCountRef (fst (performCapture steady isAuto (acquire_frame video) s)) = captureCountRef s \<and>
      captureCount (fst (performCapture steady isAuto (acquire_frame video) s)) = captureCount s \<and>
      thumbnails (fst (performCapture steady isAuto (acquire_frame video) s)) = thumbnails s \<and>
      capturingRef (fst (performCapture steady isAuto (acquire_frame video) s)) = capturingRef s \<and>
      snd (performCapture steady isAuto (acquire_frame video) s) =
        (if \<not> steady then Unstable else if capturingRef s then InFlight else Unavailable)) \<and>
   (available s \<and> \<not> capturingRef s \<and> captureQueueRef s = t # rest \<longrightarrow>
      performCapture True isAuto (acquire_frame video) s =
        (s\<lparr>capturingRef := True, captureQueueRef := rest\<rparr>,
         Started \<lparr>p_target = t, p_queue = rest, p_isAuto = isAuto, p_frame = acquire_frame video\<rparr>) \<and>
      (\<exists>s'. capture_onload
               \<lparr>p_target = t, p_queue = rest, p_isAuto = isAuto, p_frame = acquire_frame video\<rparr>
               (s\<lparr>capturingRef := True, captureQueueRef := rest\<rparr>) = Inr s' \<and>
            captureQueueRef s' = rest \<and>
            map position (capturedPlanesRef s') = map position (capturedPlanesRef s) @ [t] \<and>
            captureCountRef s' = Suc (captureCountRef s) \<and>
            \<not> capturingRef s'))"
proof (intro conjI impI)
  assume na: "\<not> available s"
  have pc: "performCapture steady isAuto (acquire_frame video) s =
      (if \<not> steady then (s\<lparr>instructions := msg_moving\<rparr>, Unstable)
       else if capturingRef s then (s, InFlight) else (s, Unavailable))"
    using na
    by (cases steady)
       (simp_all add: performCapture_unstable performCapture_in_flight performCapture_unavailable)
  show "\<not> capturingRef s \<Longrightarrow> performCapture True isAuto (acquire_frame video) s = (s, Unavailable)"
    using na by (simp add: performCapture_unavailable)
  show "captureQueueRef (fst (performCapture steady isAuto (acquire_frame video) s)) = captureQueueRef s"
    by (simp add: pc)
  show "capturedPlanesRef (fst (performCapture steady isAuto (acquire_frame video) s)) = capturedPlanesRef s"
    by (simp add: pc)
  show "captureCountRef (fst (performCapture steady isAuto (acquire_frame video) s)) = captureCountRef s"
    by (simp add: pc)
  show "captureCount (fst (performCapture steady isAuto (acquire_frame video) s)) = captureCount s"
    by (simp add: pc)
  show "thumbnails (fst (performCapture steady isAuto (acquire_frame video) s)) = thumbnails s"
    by (simp add: pc)
  show "capturingRef (fst (performCapture steady isAuto (acquire_frame video) s)) = capturingRef s"
    by (simp add: pc)
  show "snd (performCapture steady isAuto (acquire_frame video) s) =
        (if \<not> steady then Unstable else if capturingRef s then InFlight else Unavailable)"
    by (simp add: pc)
next
  assume a: "available s \<and> \<not> capturingRef s \<and> captureQueueRef s = t # rest"
  then show "performCapture True isAuto (acquire_frame video) s =
        (s\<lparr>capturingRef := True, captureQueueRef := rest\<rparr>,
         Started \<lparr>p_target = t, p_queue = rest, p_isAuto = isAuto, p_frame = acquire_frame video\<rparr>)"
    by (simp add: performCapture_started)
  let ?p = "\<lparr>p_target = t, p_queue = rest, p_isAuto = isAuto, p_frame = acquire_frame video\<rparr>"
  let ?s1 = "s\<lparr>capturingRef := True, captureQueueRef := rest\<rparr>"
  have "videoPlaneRef ?s1 \<noteq> None \<or> p_queue ?p = []"
    using a by (simp add: available_def)
  from capture_onload_Inr [OF this] obtain s' where
    "capture_onload ?p ?s1 = Inr s'"
    "captureQueueRef s' = captureQueueRef ?s1"
    "map position (capturedPlanesRef s') = map position (capturedPlanesRef ?s1) @ [p_target ?p]"
    "captureCountRef s' = Suc (captureCountRef ?s1)"
    "\<not> capturingRef s'"
    by auto
  then show "\<exists>s'. capture_onload ?p ?s1 = Inr s' \<and>
            captureQueueRef s' = rest \<and>
            map position (capturedPlanesRef s') = map position (capturedPlanesRef s) @ [t] \<and>
            captureCountRef s' = Suc (captureCountRef s) \<and>
            \<not> capturingRef s'"
    by (intro exI [of _ s']) simp
qed

theorem abort_only_on_missing_refs_witness:
  "\<not> available unmounted \<and> \<not> capturingRef unmounted \<and>
   performCapture True False (acquire_frame no_signal) unmounted = (unmounted, Unavailable) \<and>
   available (feed [(0, still)] mounted) \<and> \<not> capturingRef (feed [(0, still)] mounted) \<and>
   captureQueueRef (feed [(0, still)] mounted) =
     \<lparr>azimuth = 0, elevation = 0\<rparr> # tl (initializeQueue elevationLevels azimuthIncrements) \<and>
   (\<exists>s'. capture_onload blank_pending
           ((feed [(0, still)] mounted)\<lparr>capturingRef := True,
              captureQueueRef := tl (initializeQueue elevationLevels azimuthIncrements)\<rparr>) = Inr s' \<and>
         captureQueueRef s' = tl (initializeQueue elevationLevels azimuthIncrements) \<and>
         map position (capturedPlanesRef s') =
           map position (capturedPlanesRef (feed [(0, still)] mounted)) @ [\<lparr>azimuth = 0, elevation = 0\<rparr>] \<and>
         captureCountRef s' = Suc (captureCountRef (feed [(0, still)] mounted)) \<and>
         \<not> capturingRef s')"
proof -
  let ?s = "feed [(0, still)] mounted"
  let ?rest = "tl (initializeQueue elevationLevels azimuthIncrements)"
  have a1: "\<not> available unmounted" by (simp add: unmounted_def available_def)
  have a2: "\<not> capturingRef unmounted" by (simp add: unmounted_def mounted_def)
  have b1: "available ?s"
    using available_mounted by (simp add: expire_mounted steady_mounted available_def)
  have b2: "\<not> capturingRef ?s"
    using idle_mounted by (simp add: expire_mounted steady_mounted)
  have q: "captureQueueRef mounted = \<lparr>azimuth = 0, elevation = 0\<rparr> # ?rest"
    using initial_queue_head by (simp add: mounted_def)
  have b3: "captureQueueRef ?s = \<lparr>azimuth = 0, elevation = 0\<rparr> # ?rest"
    using q by (simp add: expire_mounted steady_mounted)
  note first = abort_only_on_missing_refs [of unmounted False no_signal True]
  note second = abort_only_on_missing_refs
    [of ?s False no_signal _ "\<lparr>azimuth = 0, elevation = 0\<rparr>" ?rest]
  from first a1 a2
  have c1: "performCapture True False (acquire_frame no_signal) unmounted = (unmounted, Unavailable)"
    by simp
  from second b1 b2 b3
  have c2: "\<exists>s'. capture_onload blank_pending
           (?s\<lparr>capturingRef := True, captureQueueRef := ?rest\<rparr>) = Inr s' \<and>
         captureQueueRef s' = ?rest \<and>
         map position (capturedPlanesRef s') =
           map position (capturedPlanesRef ?s) @ [\<lparr>azimuth = 0, elevation = 0\<rparr>] \<and>
         captureCountRef s' = Suc (captureCountRef ?s) \<and>
         \<not> capturingRef s'"
    unfolding blank_pending_def by blast
  from a1 a2 c1 b1 b2 b3 c2 show ?thesis by (intro conjI)
qed

end
